theory Spec2Isabelle
  imports Complex_Main
begin

section \<open>Deferred operations of \<open>dedalus/core/future.py\<close>\<close>

text \<open>
  The class \<open>Future\<close> is embedded twice, once for each way the source uses a node.

  \<^item> The tree protocol (\<open>__eq__\<close>, \<open>atoms\<close>, \<open>has\<close>, \<open>replace\<close>) only reads the current
    \<open>args\<close> of each node and builds new nodes; it never mutates. There a Python value is an
    element of the datatype \<open>obj\<close>, and a node carries its class and its current \<open>args\<close>.
  \<^item> \<open>evaluate\<close> mutates \<open>args\<close> and the memo of nodes that \<open>original_args\<close> keeps
    referring to, so there nodes live in an explicit store and arguments are references.
\<close>

subsection \<open>Values of the tree protocol\<close>

type_synonym cls = nat

datatype leaf_kind = KField | KArray

text \<open>
  \<open>Leaf k i\<close> is a leaf operand (a \<open>Field\<close> or an \<open>Array\<close>) with object identity \<open>i\<close>;
  \<open>Plain n\<close> is an argument that is no \<open>Operand\<close> (a number); \<open>OpClass c\<close> is an operator
  class used as a value (what \<open>has\<close> and \<open>replace\<close> receive for an operator);
  \<open>Node c xs\<close> is an instance of the operator class \<open>c\<close> with \<open>self.args = xs\<close>.
\<close>

datatype obj =
    Leaf leaf_kind nat
  | Plain int
  | OpClass cls
  | Node cls "obj list"

datatype error =
    ValueError
  | AttributeError
  | TypeError
  | NotImplementedError
  | KernelError nat

text \<open>\<open>isinstance(arg, Operand)\<close>: leaves and nodes are operands.\<close>

fun is_operand :: "obj \<Rightarrow> bool" where
  "is_operand (Leaf k i) = True"
| "is_operand (Node c xs) = True"
| "is_operand (Plain n) = False"
| "is_operand (OpClass c) = False"

fun is_leaf :: "obj \<Rightarrow> bool" where
  "is_leaf (Leaf k i) = True"
| "is_leaf x = False"

subsection \<open>Equality\<close>

text \<open>
  The result of a rich comparison method: a truth value or the sentinel
  \<open>NotImplemented\<close>.
\<close>

datatype py_cmp = PyBool bool | NotImplemented

text \<open>
  \<open>eq_dunder\<close> is \<open>Future.__eq__\<close> (lines 66-71), \<open>py_eq\<close> is the operator \<open>==\<close> that
  Python builds from it, and \<open>list_eq\<close> is \<open>==\<close> on the two \<open>args\<close> lists.

  The operator first asks the left operand, then the right one (the reflected call), and
  when both answer \<open>NotImplemented\<close> it compares identities. Leaves define no \<open>__eq__\<close> in
  this file: they compare by identity, numbers by value, classes by identity. Two nodes
  for which both calls answer \<open>NotImplemented\<close> have different types, hence are different
  objects, and the identity comparison is \<open>False\<close>. The list comparison of Python takes
  \<open>x is y or x == y\<close> on each pair; by value the first disjunct implies the second.
\<close>

function eq_dunder :: "obj \<Rightarrow> obj \<Rightarrow> py_cmp"
  and py_eq :: "obj \<Rightarrow> obj \<Rightarrow> bool"
  and list_eq :: "obj list \<Rightarrow> obj list \<Rightarrow> bool"
where
  "eq_dunder (Node c xs) (Node d ys) =
     (if d = c then PyBool (list_eq xs ys) else NotImplemented)"
| "eq_dunder (Node c xs) (Leaf k i) = NotImplemented"
| "eq_dunder (Node c xs) (Plain n) = NotImplemented"
| "eq_dunder (Node c xs) (OpClass d) = NotImplemented"
| "eq_dunder (Leaf k i) other = NotImplemented"
| "eq_dunder (Plain n) other = NotImplemented"
| "eq_dunder (OpClass c) other = NotImplemented"
| "py_eq (Node c xs) (Node d ys) =
     (case eq_dunder (Node c xs) (Node d ys) of
        PyBool b \<Rightarrow> b
      | NotImplemented \<Rightarrow>
          (case eq_dunder (Node d ys) (Node c xs) of
             PyBool b \<Rightarrow> b
           | NotImplemented \<Rightarrow> False))"
| "py_eq (Node c xs) (Leaf k i) = False"
| "py_eq (Node c xs) (Plain n) = False"
| "py_eq (Node c xs) (OpClass d) = False"
| "py_eq (Leaf k i) other = (other = Leaf k i)"
| "py_eq (Plain n) other = (other = Plain n)"
| "py_eq (OpClass c) other = (other = OpClass c)"
| "list_eq [] [] = True"
| "list_eq (x # xs) (y # ys) = (py_eq x y \<and> list_eq xs ys)"
| "list_eq [] (y # ys) = False"
| "list_eq (x # xs) [] = False"
  by pat_completeness auto
termination
  by (relation "inv_image (less_than <*lex*> less_than)
       (\<lambda>v. case v of
          Inl (a, b) \<Rightarrow> (size a + size b, 0::nat)
        | Inr (Inl (a, b)) \<Rightarrow> (size a + size b, 1)
        | Inr (Inr (xs, ys)) \<Rightarrow> (size_list size xs + size_list size ys, 0))") auto


subsection \<open>Tree queries\<close>

text \<open>
  The attribute \<open>base\<close> (the operator identity of a node) is read by \<open>has\<close>, \<open>replace\<close>
  and \<open>name\<close> but defined by no class of this file: the concrete operator classes supply it.
  It is a class-level attribute, so it is taken as a parameter \<open>B\<close> that maps the class of a
  node to the class that is its operator identity.
\<close>

text \<open>
  Modelled from the spec: \<open>OrderedSet\<close> of \<open>tools/general.py\<close>, which is not in this file.
  The spec describes the result of \<open>atoms\<close> as a set without duplicates that keeps insertion
  order: a list in which an element that is already present is not added again.
\<close>

definition oset_add :: "obj \<Rightarrow> obj list \<Rightarrow> obj list" where
  "oset_add x s = (if x \<in> set s then s else s @ [x])"

definition oset_update :: "obj list \<Rightarrow> obj list \<Rightarrow> obj list" where
  "oset_update s new = fold oset_add new s"

text \<open>
  \<open>atoms\<close> (lines 92-99) on a node. On a leaf the method belongs to the leaf classes of
  \<open>field.py\<close>. Modelled from the spec: \<open>atoms\<close> of a leaf operand, which is not in this file;
  the spec has \<open>atoms\<close> return the leaf operands of the requested kinds, so a leaf answers
  with itself when its kind is requested. Values that are no operands have no such method
  and the source never calls it on them (the \<open>isinstance\<close> filter); the empty answer given
  here is never used.
\<close>

fun atoms :: "leaf_kind list \<Rightarrow> obj \<Rightarrow> obj list" where
  "atoms types (Node c xs) =
     fold (\<lambda>arg acc. if is_operand arg then oset_update acc (atoms types arg) else acc) xs []"
| "atoms types (Leaf k i) = (if k \<in> set types then [Leaf k i] else [])"
| "atoms types (Plain n) = []"
| "atoms types (OpClass c) = []"

text \<open>
  \<open>has\<close> (lines 101-108) on a node. Modelled from the spec: \<open>has\<close> of a leaf operand, which
  is not in this file; a leaf contains exactly itself. As for \<open>atoms\<close>, the answer on
  values that are no operands is never used.
\<close>

fun has :: "(cls \<Rightarrow> cls) \<Rightarrow> obj list \<Rightarrow> obj \<Rightarrow> bool" where
  "has B vars (Node c xs) =
     (if OpClass (B c) \<in> set vars then True
      else list_ex (has B vars) (filter is_operand xs))"
| "has B vars (Leaf k i) = (Leaf k i \<in> set vars)"
| "has B vars (Plain n) = False"
| "has B vars (OpClass c) = False"




text \<open>The operator identities of all nodes of a tree, the root first.\<close>

fun operators :: "(cls \<Rightarrow> cls) \<Rightarrow> obj \<Rightarrow> cls list" where
  "operators B (Node c xs) = B c # concat (map (operators B) (filter is_operand xs))"
| "operators B (Leaf k i) = []"
| "operators B (Plain n) = []"
| "operators B (OpClass c) = []"

text \<open>The classes of all nodes of a tree.\<close>

fun node_classes :: "obj \<Rightarrow> cls list" where
  "node_classes (Node c xs) = c # concat (map node_classes (filter is_operand xs))"
| "node_classes (Leaf k i) = []"
| "node_classes (Plain n) = []"
| "node_classes (OpClass c) = []"

text \<open>\<open>type(X)\<close> of a leaf, as the one-element list of kinds that \<open>atoms\<close> takes.\<close>

fun leaf_kinds :: "obj \<Rightarrow> leaf_kind list" where
  "leaf_kinds (Leaf k i) = [k]"
| "leaf_kinds x = []"





subsection \<open>Nodes in a store\<close>

type_synonym addr = nat
type_synonym ident = nat
type_synonym scale = rat
type_synonym bases = "nat option list"

text \<open>
  An argument of a node in the store: a leaf operand with its identity (a \<open>Field\<close> or an
  \<open>Array\<close>), a reference to a \<open>Future\<close> node, or a value that is no operand.
\<close>

datatype val = Data leaf_kind nat | Ref addr | Num int

text \<open>\<open>isinstance(a, Field)\<close> and \<open>isinstance(a, Future)\<close>.\<close>

fun is_Field :: "val \<Rightarrow> bool" where
  "is_Field (Data KField i) = True"
| "is_Field v = False"

fun is_Future :: "val \<Rightarrow> bool" where
  "is_Future (Ref a) = True"
| "is_Future v = False"

text \<open>
  The attributes of a \<open>Future\<close> object. \<open>store_last\<close> and \<open>future_type\<close> are class
  attributes (\<open>future_type\<close> is \<open>Array\<close> in \<open>FutureArray\<close>, \<open>Field\<close> in \<open>FutureField\<close> and
  missing in \<open>Future\<close> itself); \<open>dealias\<close> stands for \<open>self.domain.dealias\<close>. An attribute
  that holds \<open>None\<close> or was never assigned is \<open>None\<close> here; \<open>last_out\<close> is assigned only
  together with \<open>last_id\<close>.
\<close>

record future =
  store_last :: bool
  future_type :: "leaf_kind option"
  args :: "val list"
  original_args :: "val list"
  out :: "val option"
  bases :: bases
  dist :: "nat option"
  dealias :: scale
  scales :: scale
  last_id :: "ident option"
  last_out :: "val option"

text \<open>
  What happens outside the nodes is recorded as a trace. \<open>Enter a id force\<close> marks the
  entry of \<open>a.evaluate(id, force)\<close>; the other events are the calls that \<open>evaluate\<close> makes
  on its collaborators.
\<close>

datatype event =
    Enter addr "ident option" bool
  | RequireScales val scale
  | CheckConditions addr
  | EnforceConditions addr
  | Allocate leaf_kind nat bool
  | SetScales val scale
  | Operate addr val

text \<open>
  The state: the store of nodes, the data of the fields and arrays (\<open>world\<close>, whose type
  is left open), the trace and the next free identity for an allocated output.
\<close>

record 'w state =
  heap :: "addr \<Rightarrow> future"
  world :: 'w
  trace :: "event list"
  next_obj :: nat

text \<open>
  The operations that concrete operators and the data classes supply. \<open>check_conditions\<close>,
  \<open>enforce_conditions\<close> and \<open>operate\<close> are the three abstract methods of lines 207-223;
  they see the node, its current arguments and the data, may raise, and the last two may
  change the data (also when they raise). \<open>require_scales\<close> and \<open>set_scales\<close> are
  methods of \<open>Field\<close> and \<open>Array\<close>.
\<close>

record 'w hooks =
  check_conditions :: "addr \<Rightarrow> val list \<Rightarrow> 'w \<Rightarrow> error + bool"
  enforce_conditions :: "addr \<Rightarrow> val list \<Rightarrow> 'w \<Rightarrow> error option \<times> 'w"
  operate :: "addr \<Rightarrow> val list \<Rightarrow> val \<Rightarrow> 'w \<Rightarrow> error option \<times> 'w"
  require_scales :: "val \<Rightarrow> scale \<Rightarrow> 'w \<Rightarrow> 'w"
  set_scales :: "val \<Rightarrow> scale \<Rightarrow> 'w \<Rightarrow> 'w"

text \<open>The three methods as \<open>Future\<close> itself has them: each raises \<open>NotImplementedError\<close>.\<close>

definition Future_hooks :: "'w hooks" where
  "Future_hooks =
     \<lparr> check_conditions = (\<lambda>a xs w. Inl NotImplementedError),
       enforce_conditions = (\<lambda>a xs w. (Some NotImplementedError, w)),
       operate = (\<lambda>a xs v w. (Some NotImplementedError, w)),
       require_scales = (\<lambda>v d w. w),
       set_scales = (\<lambda>v d w. w) \<rparr>"

definition log :: "event \<Rightarrow> 'w state \<Rightarrow> 'w state" where
  "log e s = s\<lparr>trace := trace s @ [e]\<rparr>"

definition update_node :: "addr \<Rightarrow> (future \<Rightarrow> future) \<Rightarrow> 'w state \<Rightarrow> 'w state" where
  "update_node a f s = s\<lparr>heap := (heap s)(a := f (heap s a))\<rparr>"

text \<open>\<open>self.args[i] = a_eval\<close> (line 159).\<close>

definition set_arg :: "addr \<Rightarrow> nat \<Rightarrow> val \<Rightarrow> 'w state \<Rightarrow> 'w state" where
  "set_arg a i v s = update_node a (\<lambda>nd. nd\<lparr>args := (args nd)[i := v]\<rparr>) s"

text \<open>\<open>reset\<close> (lines 88-90).\<close>

definition reset :: "addr \<Rightarrow> 'w state \<Rightarrow> 'w state" where
  "reset a s = update_node a (\<lambda>nd. nd\<lparr>args := original_args nd\<rparr>) s"

text \<open>Lines 146-147 and lines 198-199.\<close>

definition clear_cache :: "addr \<Rightarrow> 'w state \<Rightarrow> 'w state" where
  "clear_cache a s = update_node a (\<lambda>nd. nd\<lparr>last_id := None, last_out := None\<rparr>) s"

definition store_cache :: "addr \<Rightarrow> ident option \<Rightarrow> val \<Rightarrow> 'w state \<Rightarrow> 'w state" where
  "store_cache a i v s = update_node a (\<lambda>nd. nd\<lparr>last_id := i, last_out := Some v\<rparr>) s"

text \<open>\<open>a.require_scales(self.domain.dealias)\<close> (line 154) and \<open>out.set_scales(...)\<close> (line 188).\<close>

definition do_require_scales :: "'w hooks \<Rightarrow> val \<Rightarrow> scale \<Rightarrow> 'w state \<Rightarrow> 'w state" where
  "do_require_scales K v d s = (log (RequireScales v d) s)\<lparr>world := require_scales K v d (world s)\<rparr>"

definition do_set_scales :: "'w hooks \<Rightarrow> val \<Rightarrow> scale \<Rightarrow> 'w state \<Rightarrow> 'w state" where
  "do_set_scales K v d s = (log (SetScales v d) s)\<lparr>world := set_scales K v d (world s)\<rparr>"

text \<open>
  Lines 167-173: the layout gate. The result \<open>Inr True\<close> lets the evaluation go on,
  \<open>Inr False\<close> is the early \<open>return None\<close> of line 173.
\<close>

definition gate :: "'w hooks \<Rightarrow> addr \<Rightarrow> bool \<Rightarrow> 'w state \<Rightarrow> (error + bool) \<times> 'w state" where
  "gate K a force s =
     (if force then
        (case enforce_conditions K a (args (heap s a)) (world s) of
           (Some e, w) \<Rightarrow> (Inl e, (log (EnforceConditions a) s)\<lparr>world := w\<rparr>)
         | (None, w) \<Rightarrow> (Inr True, (log (EnforceConditions a) s)\<lparr>world := w\<rparr>))
      else
        (case check_conditions K a (args (heap s a)) (world s) of
           Inl e \<Rightarrow> (Inl e, log (CheckConditions a) s)
         | Inr ready \<Rightarrow> (Inr ready, log (CheckConditions a) s)))"

text \<open>
  Lines 175-185: the output. A supplied \<open>out\<close> is taken as it is (operands are truthy);
  otherwise an object of the class \<open>future_type\<close> is created, from the bases when
  \<open>any(bases)\<close> and from the domain otherwise. The attributes \<open>tensorsig\<close> and \<open>dtype\<close>
  that line 181 passes on belong to the concrete operators and are not modelled.
\<close>

definition allocate :: "addr \<Rightarrow> 'w state \<Rightarrow> (error + val) \<times> 'w state" where
  "allocate a s =
     (case out (heap s a) of
        Some v \<Rightarrow> (Inr v, s)
      | None \<Rightarrow>
          (case future_type (heap s a) of
             None \<Rightarrow> (Inl AttributeError, s)
           | Some k \<Rightarrow>
               (Inr (Data k (next_obj s)),
                (log (Allocate k (next_obj s) (list_ex (\<lambda>b. b \<noteq> None) (bases (heap s a)))) s)
                  \<lparr>next_obj := Suc (next_obj s)\<rparr>)))"

text \<open>Line 191: the kernel.\<close>

definition do_operate :: "'w hooks \<Rightarrow> addr \<Rightarrow> val \<Rightarrow> 'w state \<Rightarrow> error option \<times> 'w state" where
  "do_operate K a v s =
     (case operate K a (args (heap s a)) v (world s) of
        (r, w) \<Rightarrow> (r, (log (Operate a v) s)\<lparr>world := w\<rparr>))"

text \<open>Lines 163-201: what \<open>evaluate\<close> does once the loop over the arguments is over.\<close>

definition finish ::
  "'w hooks \<Rightarrow> addr \<Rightarrow> ident option \<Rightarrow> bool \<Rightarrow> bool \<Rightarrow> 'w state \<Rightarrow> (error + val option) \<times> 'w state"
where
  "finish K a i force all_eval s =
     (if \<not> all_eval then (Inr None, s)
      else
        (case gate K a force s of
           (Inl e, s1) \<Rightarrow> (Inl e, s1)
         | (Inr False, s1) \<Rightarrow> (Inr None, s1)
         | (Inr True, s1) \<Rightarrow>
             (case allocate a s1 of
                (Inl e, s2) \<Rightarrow> (Inl e, s2)
              | (Inr v, s2) \<Rightarrow>
                  (case do_operate K a v (do_set_scales K v (dealias (heap s2 a)) s2) of
                     (Some e, s3) \<Rightarrow> (Inl e, s3)
                   | (None, s3) \<Rightarrow>
                       (Inr (Some v),
                        (if store_last (heap s3 a) \<and> i \<noteq> None
                         then store_cache a i v (reset a s3)
                         else reset a s3))))))"

text \<open>Lines 141-143: the memo answers.\<close>

definition cache_hit :: "addr \<Rightarrow> ident option \<Rightarrow> 'w state \<Rightarrow> bool" where
  "cache_hit a i s = (store_last (heap s a) \<and> i \<noteq> None \<and> i = last_id (heap s a))"

text \<open>
  \<open>evaluate\<close> (lines 137-201). The recursion follows the references of the store, so it
  carries a bound on the depth of the calls: \<open>None\<close> says that the bound was reached, and
  \<open>Some (r, s)\<close> that the call ended in the state \<open>s\<close>, where \<open>r\<close> is \<open>Inl e\<close> for a raised
  exception, \<open>Inr None\<close> for the returned \<open>None\<close> and \<open>Inr (Some v)\<close> for a returned
  output. \<open>pipeline\<close> is the part after the memo check, \<open>resolve_args\<close> the loop of lines
  152-162 over the pairs of \<open>enumerate(self.args)\<close>. The loop reads the list once: it
  writes only at the index it has just read, and the only other writer of the list is a
  call of \<open>evaluate\<close> on the same node.
\<close>

fun evaluate ::
    "nat \<Rightarrow> 'w hooks \<Rightarrow> addr \<Rightarrow> ident option \<Rightarrow> bool \<Rightarrow> 'w state
     \<Rightarrow> ((error + val option) \<times> 'w state) option"
  and pipeline ::
    "nat \<Rightarrow> 'w hooks \<Rightarrow> addr \<Rightarrow> ident option \<Rightarrow> bool \<Rightarrow> 'w state
     \<Rightarrow> ((error + val option) \<times> 'w state) option"
  and resolve_args ::
    "nat \<Rightarrow> 'w hooks \<Rightarrow> addr \<Rightarrow> ident option \<Rightarrow> bool \<Rightarrow> (nat \<times> val) list \<Rightarrow> bool \<Rightarrow> 'w state
     \<Rightarrow> ((error + bool) \<times> 'w state) option"
where
  "evaluate 0 K a i force s = None"
| "evaluate (Suc n) K a i force s =
     (if cache_hit a i s then Some (Inr (last_out (heap s a)), log (Enter a i force) s)
      else if store_last (heap s a) \<and> i \<noteq> None
      then pipeline n K a i force (clear_cache a (log (Enter a i force) s))
      else pipeline n K a i force (log (Enter a i force) s))"
| "pipeline n K a i force s =
     (case resolve_args n K a i force (enumerate 0 (args (heap s a))) True s of
        None \<Rightarrow> None
      | Some (Inl e, s1) \<Rightarrow> Some (Inl e, s1)
      | Some (Inr all_eval, s1) \<Rightarrow> Some (finish K a i force all_eval s1))"
| "resolve_args n K a i force [] all_eval s = Some (Inr all_eval, s)"
| "resolve_args n K a i force ((j, Data k d) # rest) all_eval s =
     resolve_args n K a i force rest all_eval
       (if is_Field (Data k d) then do_require_scales K (Data k d) (dealias (heap s a)) s else s)"
| "resolve_args n K a i force ((j, Num m) # rest) all_eval s =
     resolve_args n K a i force rest all_eval s"
| "resolve_args n K a i force ((j, Ref c) # rest) all_eval s =
     (case evaluate n K c i force s of
        None \<Rightarrow> None
      | Some (Inl e, s1) \<Rightarrow> Some (Inl e, s1)
      | Some (Inr (Some v), s1) \<Rightarrow> resolve_args n K a i force rest all_eval (set_arg a j v s1)
      | Some (Inr None, s1) \<Rightarrow> resolve_args n K a i force rest False s1)"

text \<open>
  The state in which a call that the memo does not answer starts its loop: the entry is
  on the trace and, for a node with a memo and a call with an \<open>id\<close>, the memo is cleared
  (lines 144-147).
\<close>

definition entered :: "addr \<Rightarrow> ident option \<Rightarrow> bool \<Rightarrow> 'w state \<Rightarrow> 'w state" where
  "entered a i force s =
     (if store_last (heap s a) \<and> i \<noteq> None
      then clear_cache a (log (Enter a i force) s)
      else log (Enter a i force) s)"

text \<open>\<open>attempt\<close> (lines 203-205).\<close>

definition attempt ::
  "nat \<Rightarrow> 'w hooks \<Rightarrow> addr \<Rightarrow> ident option \<Rightarrow> 'w state \<Rightarrow> ((error + val option) \<times> 'w state) option"
where
  "attempt n K a i s = evaluate n K a i False s"


text \<open>
  \<open>some_arg_absent\<close> says, in the words of the specification, that some argument that is
  itself a \<open>Future\<close> evaluated to the absent value: it walks the arguments as the loop
  does and looks at what each nested \<open>evaluate\<close> returns in the state in which the loop
  reaches it.
\<close>

fun some_arg_absent ::
  "nat \<Rightarrow> 'w hooks \<Rightarrow> addr \<Rightarrow> ident option \<Rightarrow> bool \<Rightarrow> (nat \<times> val) list \<Rightarrow> 'w state \<Rightarrow> bool"
where
  "some_arg_absent n K a i force [] s = False"
| "some_arg_absent n K a i force ((j, Data k d) # rest) s =
     some_arg_absent n K a i force rest
       (if is_Field (Data k d) then do_require_scales K (Data k d) (dealias (heap s a)) s else s)"
| "some_arg_absent n K a i force ((j, Num m) # rest) s = some_arg_absent n K a i force rest s"
| "some_arg_absent n K a i force ((j, Ref c) # rest) s =
     (case evaluate n K c i force s of
        Some (Inr None, s1) \<Rightarrow> True
      | Some (Inr (Some v), s1) \<Rightarrow> some_arg_absent n K a i force rest (set_arg a j v s1)
      | Some (Inl e, s1) \<Rightarrow> False
      | None \<Rightarrow> False)"

text \<open>
  \<open>same_static x y\<close>: the attributes of a node that \<open>evaluate\<close> never assigns are the
  same in \<open>x\<close> and \<open>y\<close>.
\<close>

definition same_static :: "future \<Rightarrow> future \<Rightarrow> bool" where
  "same_static x y =
     (store_last y = store_last x \<and> future_type y = future_type x
      \<and> original_args y = original_args x \<and> out y = out x \<and> bases y = bases x
      \<and> dist y = dist x \<and> dealias y = dealias x \<and> scales y = scales x)"

text \<open>
  \<open>ext s s'\<close>: the trace of \<open>s'\<close> continues the trace of \<open>s\<close>, and no node has changed
  in an attribute that \<open>evaluate\<close> never assigns.
\<close>

definition ext :: "'w state \<Rightarrow> 'w state \<Rightarrow> bool" where
  "ext s s' = ((\<exists>t. trace s' = trace s @ t) \<and> (\<forall>b. same_static (heap s b) (heap s' b)))"

text \<open>
  \<open>memo_kept s s' b\<close>: node \<open>b\<close> has the same \<open>last_id\<close> and \<open>last_out\<close> in \<open>s'\<close> as
  in \<open>s\<close>.
\<close>

definition memo_kept :: "'w state \<Rightarrow> 'w state \<Rightarrow> addr \<Rightarrow> bool" where
  "memo_kept s s' b =
     (last_id (heap s' b) = last_id (heap s b) \<and> last_out (heap s' b) = last_out (heap s b))"

text \<open>The arguments of a node that are fields, and those that are nodes.\<close>

definition field_args :: "'w state \<Rightarrow> addr \<Rightarrow> val list" where
  "field_args s a = filter is_Field (args (heap s a))"

definition future_args :: "'w state \<Rightarrow> addr \<Rightarrow> addr list" where
  "future_args s a = concat (map (\<lambda>x. case x of Ref c \<Rightarrow> [c] | _ \<Rightarrow> []) (args (heap s a)))"

text \<open>The events that a call has added to the trace.\<close>

definition added :: "'w state \<Rightarrow> 'w state \<Rightarrow> event list" where
  "added s s' = drop (length (trace s)) (trace s')"

subsection \<open>Construction\<close>

text \<open>
  What \<open>__init__\<close> (lines 41-56) takes from outside this file: the class attributes of
  the concrete operator, its \<open>_build_bases\<close> (which \<open>Future\<close> leaves abstract),
  \<open>unify_attributes(args, 'dist', require=False)\<close> and the dealias factor of the domain
  \<open>Domain(dist, bases)\<close>. \<open>class_bases\<close> is what the attribute \<open>bases\<close> gives on an
  object before \<open>__init__\<close> has assigned it: the value of a class-level attribute when
  the class has one, and \<open>None\<close> (an \<open>AttributeError\<close>) when it has none; no class of
  this file has one.
\<close>

record init_env =
  class_store_last :: bool
  class_future_type :: "leaf_kind option"
  class_bases :: "bases option"
  build_bases :: "val list \<Rightarrow> error + bases"
  unify_dist :: "val list \<Rightarrow> error + nat option"
  domain_dealias :: "nat option \<Rightarrow> bases \<Rightarrow> scale"

text \<open>
  Lines 43-45. The supplied \<open>out\<close> comes with its attribute \<open>bases\<close>. The comparison
  reads \<open>self.bases\<close>, which line 50 assigns only later.
\<close>

definition check_out :: "init_env \<Rightarrow> (val \<times> bases) option \<Rightarrow> error option" where
  "check_out E outp =
     (case outp of
        None \<Rightarrow> None
      | Some (v, out_bases) \<Rightarrow>
          (case class_bases E of
             None \<Rightarrow> Some AttributeError
           | Some self_bases \<Rightarrow> if out_bases \<noteq> self_bases then Some ValueError else None))"

text \<open>
  \<open>__init__\<close>: the new object, or the exception. Line 53 reads \<open>self.dist.grid_layout\<close>,
  which raises when no argument has a distributor.
\<close>

definition init :: "init_env \<Rightarrow> val list \<Rightarrow> (val \<times> bases) option \<Rightarrow> error + future" where
  "init E xs outp =
     (case check_out E outp of
        Some e \<Rightarrow> Inl e
      | None \<Rightarrow>
          (case build_bases E xs of
             Inl e \<Rightarrow> Inl e
           | Inr b \<Rightarrow>
               (case unify_dist E xs of
                  Inl e \<Rightarrow> Inl e
                | Inr None \<Rightarrow> Inl AttributeError
                | Inr (Some d) \<Rightarrow>
                    Inr \<lparr> store_last = class_store_last E,
                          future_type = class_future_type E,
                          args = xs,
                          original_args = xs,
                          out = map_option fst outp,
                          bases = b,
                          dist = Some d,
                          dealias = domain_dealias E (Some d) b,
                          scales = 1,
                          last_id = None,
                          last_out = None \<rparr>)))"

subsection \<open>A small expression for the examples\<close>

text \<open>
  Six nodes over two fields. Node 0 has the arguments \<open>[node 2, field 7, node 1]\<close>,
  node 1 has \<open>[field 5]\<close>, node 2 has none, node 3 has \<open>[node 1, field 7, node 2]\<close> and
  keeps a memo, nodes 6 and 8 have \<open>[node 1]\<close>. The data is the list of the nodes whose arguments are not in
  the layout they need: \<open>check_conditions\<close> looks the node up, \<open>enforce_conditions\<close>
  removes it. The kernel of node 8 and the enforcement of node 6 raise.
\<close>

definition demo_node :: "val list \<Rightarrow> future" where
  "demo_node xs =
     \<lparr> store_last = False, future_type = Some KField, args = xs, original_args = xs,
       out = None, bases = [], dist = Some 0, dealias = 3 / 2, scales = 1,
       last_id = None, last_out = None \<rparr>"

definition demo_heap :: "addr \<Rightarrow> future" where
  "demo_heap a =
     (if a = 0 then demo_node [Ref 2, Data KField 7, Ref 1]
      else if a = 1 then demo_node [Data KField 5]
      else if a = 3 then (demo_node [Ref 1, Data KField 7, Ref 2])\<lparr>store_last := True\<rparr>
      else if a = 6 then demo_node [Ref 1]
      else if a = 8 then demo_node [Ref 1]
      else demo_node [])"

definition demo_hooks :: "addr list hooks" where
  "demo_hooks =
     \<lparr> check_conditions = (\<lambda>a xs w. Inr (a \<notin> set w)),
       enforce_conditions =
         (\<lambda>a xs w. (if a = 6 then Some (KernelError 1) else None, removeAll a w)),
       operate = (\<lambda>a xs v w. (if a = 8 then Some (KernelError 0) else None, w)),
       require_scales = (\<lambda>v d w. w),
       set_scales = (\<lambda>v d w. w) \<rparr>"

definition demo_state :: "addr list \<Rightarrow> addr list state" where
  "demo_state w = \<lparr> heap = demo_heap, world = w, trace = [], next_obj = 100 \<rparr>"

text \<open>The same expression when node 3 remembers the output 50 for the id 1.\<close>

definition demo_cached :: "addr list state" where
  "demo_cached =
     \<lparr> heap = demo_heap(3 := (demo_heap 3)\<lparr>last_id := Some 1, last_out := Some (Data KField 50)\<rparr>),
       world = [], trace = [], next_obj = 100 \<rparr>"

text \<open>
  A concrete operator class for the constructor: it has no class-level \<open>bases\<close>, its
  \<open>_build_bases\<close> gives one basis, and its arguments share the distributor 0.
\<close>

definition demo_env :: init_env where
  "demo_env =
     \<lparr> class_store_last = False, class_future_type = Some KField, class_bases = None,
       build_bases = (\<lambda>xs. Inr [Some 1]), unify_dist = (\<lambda>xs. Inr (Some 0)),
       domain_dealias = (\<lambda>d b. 3 / 2) \<rparr>"

section \<open>Properties of the tree protocol\<close>

subsection \<open>Equality\<close>

lemma list_eq_all2: "list_eq xs ys = list_all2 py_eq xs ys"
proof (induction xs arbitrary: ys)
  case Nil
  then show ?case by (cases ys) simp_all
next
  case (Cons x xs)
  then show ?case by (cases ys) simp_all
qed

text \<open>
  C9. Two nodes are equal exactly when they have the same concrete class and their
  current \<open>args\<close> are equal element by element. Against a value of another type
  (a node of another class, a leaf, a number, a class) \<open>__eq__\<close> answers
  \<open>NotImplemented\<close>, not \<open>False\<close>, and the operator \<open>==\<close> then asks the reflected
  comparison.
\<close>

theorem future_eq_same_type_and_args:
  "(py_eq (Node c xs) (Node d ys) \<longleftrightarrow> c = d \<and> list_all2 py_eq xs ys)
   \<and> (eq_dunder (Node c xs) (Node d ys) = PyBool True \<longleftrightarrow> c = d \<and> list_all2 py_eq xs ys)
   \<and> (c \<noteq> d \<longrightarrow> eq_dunder (Node c xs) (Node d ys) = NotImplemented
        \<and> py_eq (Node c xs) (Node d ys) =
            (case eq_dunder (Node d ys) (Node c xs) of PyBool b \<Rightarrow> b | NotImplemented \<Rightarrow> False))
   \<and> eq_dunder (Node c xs) (Leaf k i) = NotImplemented
   \<and> eq_dunder (Node c xs) (Plain n) = NotImplemented
   \<and> eq_dunder (Node c xs) (OpClass e) = NotImplemented"
  by (auto simp: list_eq_all2)

theorem future_eq_witness:
  "(1::nat) \<noteq> 2
   \<and> eq_dunder (Node 1 [Leaf KField 0]) (Node 2 [Leaf KField 0]) = NotImplemented
   \<and> \<not> py_eq (Node 1 [Leaf KField 0]) (Node 2 [Leaf KField 0])"
  using future_eq_same_type_and_args [of 1 "[Leaf KField 0]" 2 "[Leaf KField 0]"]
  by simp

subsection \<open>\<open>atoms\<close> and \<open>has\<close>\<close>

lemma set_oset_add: "set (oset_add x s) = insert x (set s)"
  by (auto simp: oset_add_def)

lemma set_oset_update: "set (oset_update s new) = set s \<union> set new"
  unfolding oset_update_def
  by (induction new arbitrary: s) (auto simp: set_oset_add)

lemma set_fold_atoms:
  "set (fold (\<lambda>arg acc. if is_operand arg then oset_update acc (f arg) else acc) xs s)
   = set s \<union> (\<Union>a \<in> set (filter is_operand xs). set (f a))"
  by (induction xs arbitrary: s) (auto simp: set_oset_update)

lemma set_atoms_Node:
  "set (atoms types (Node c xs)) = (\<Union>a \<in> set (filter is_operand xs). set (atoms types a))"
  by (simp add: set_fold_atoms)

lemma atoms_leaf_iff: "Leaf k i \<in> set (atoms [k] t) \<longleftrightarrow> has B [Leaf k i] t"
proof (induction t)
  case (Node c xs)
  show ?case
    unfolding set_atoms_Node using Node by (auto simp: list_ex_iff)
qed auto

lemma has_op_iff: "has B [OpClass b] t \<longleftrightarrow> b \<in> set (operators B t)"
proof (induction t)
  case (Node c xs)
  then show ?case by (auto simp: list_ex_iff)
qed auto

lemma has_other: "\<not> is_leaf X \<Longrightarrow> (\<forall>b. X \<noteq> OpClass b) \<Longrightarrow> \<not> has B [X] t"
proof (induction t)
  case (Node c xs)
  then show ?case by (auto simp: list_ex_iff)
next
  case (Leaf k i)
  then show ?case by (cases X) auto
qed auto

text \<open>
  C6, as the specification states it, fails: \<open>has\<close> recurses into the arguments, so it
  also answers \<open>True\<close> for the operator of an inner node, which is neither the operator of
  the root nor a leaf. Here the root has class 0 and its only argument is a node of class 1.
\<close>

theorem has_inner_operator_counterexample:
  "\<not> (has id [OpClass 1] (Node 0 [Node 1 []]) \<longleftrightarrow>
        OpClass 1 = OpClass (id 0)
        \<or> (is_leaf (OpClass 1)
           \<and> OpClass 1 \<in> set (atoms (leaf_kinds (OpClass 1)) (Node 0 [Node 1 []]))))"
  by simp

text \<open>
  C6, amended. \<open>tree.has(X)\<close> is true exactly when \<open>X\<close> is the operator identity of the
  root or of a node below it, or \<open>X\<close> is a leaf operand contained in
  \<open>tree.atoms(type(X))\<close>.
\<close>

theorem has_iff_operator_or_atom:
  "has B [X] t \<longleftrightarrow>
     (\<exists>b \<in> set (operators B t). X = OpClass b)
     \<or> (is_leaf X \<and> X \<in> set (atoms (leaf_kinds X) t))"
proof (cases X)
  case (Leaf k i)
  then show ?thesis using atoms_leaf_iff [of k i t B] by auto
next
  case (OpClass b)
  then show ?thesis using has_op_iff [of B b t] by auto
next
  case (Plain n)
  then show ?thesis using has_other [of X B t] by auto
next
  case (Node c xs)
  then show ?thesis using has_other [of X B t] by auto
qed

theorem has_iff_operator_or_atom_witness:
  "has id [Leaf KField 3] (Node 0 [Node 1 [Leaf KField 3, Plain 2]])
   \<and> Leaf KField 3 \<in> set (atoms [KField] (Node 0 [Node 1 [Leaf KField 3, Plain 2]]))
   \<and> has id [OpClass 1] (Node 0 [Node 1 [Leaf KField 3, Plain 2]])
   \<and> 1 \<in> set (operators id (Node 0 [Node 1 [Leaf KField 3, Plain 2]]))"
  using has_iff_operator_or_atom [of id "Leaf KField 3" "Node 0 [Node 1 [Leaf KField 3, Plain 2]]"]
    has_iff_operator_or_atom [of id "OpClass 1" "Node 0 [Node 1 [Leaf KField 3, Plain 2]]"]
  by (simp add: oset_update_def oset_add_def)

section \<open>Properties of \<open>evaluate\<close>\<close>

subsection \<open>The steps on the state\<close>

lemma log_simps:
  "trace (log e s) = trace s @ [e]" "heap (log e s) = heap s"
  "world (log e s) = world s" "next_obj (log e s) = next_obj s"
  by (simp_all add: log_def)

lemma update_node_simps:
  "trace (update_node a f s) = trace s" "heap (update_node a f s) = (heap s)(a := f (heap s a))"
  "world (update_node a f s) = world s" "next_obj (update_node a f s) = next_obj s"
  by (simp_all add: update_node_def)

lemma set_arg_simps:
  "trace (set_arg a j v s) = trace s"
  "heap (set_arg a j v s) = (heap s)(a := (heap s a)\<lparr>args := (args (heap s a))[j := v]\<rparr>)"
  "world (set_arg a j v s) = world s" "next_obj (set_arg a j v s) = next_obj s"
  by (simp_all add: set_arg_def update_node_simps)

lemma reset_simps:
  "trace (reset a s) = trace s"
  "heap (reset a s) = (heap s)(a := (heap s a)\<lparr>args := original_args (heap s a)\<rparr>)"
  "world (reset a s) = world s" "next_obj (reset a s) = next_obj s"
  by (simp_all add: reset_def update_node_simps)

lemma clear_cache_simps:
  "trace (clear_cache a s) = trace s"
  "heap (clear_cache a s) = (heap s)(a := (heap s a)\<lparr>last_id := None, last_out := None\<rparr>)"
  "world (clear_cache a s) = world s" "next_obj (clear_cache a s) = next_obj s"
  by (simp_all add: clear_cache_def update_node_simps)

lemma store_cache_simps:
  "trace (store_cache a i v s) = trace s"
  "heap (store_cache a i v s) = (heap s)(a := (heap s a)\<lparr>last_id := i, last_out := Some v\<rparr>)"
  "world (store_cache a i v s) = world s" "next_obj (store_cache a i v s) = next_obj s"
  by (simp_all add: store_cache_def update_node_simps)

lemma do_require_scales_simps:
  "trace (do_require_scales K v d s) = trace s @ [RequireScales v d]"
  "heap (do_require_scales K v d s) = heap s"
  by (simp_all add: do_require_scales_def log_simps)

lemma do_set_scales_simps:
  "trace (do_set_scales K v d s) = trace s @ [SetScales v d]"
  "heap (do_set_scales K v d s) = heap s"
  by (simp_all add: do_set_scales_def log_simps)

lemmas state_simps = log_simps set_arg_simps reset_simps clear_cache_simps store_cache_simps
  do_require_scales_simps do_set_scales_simps

lemma gate_state:
  "gate K a force s = (r, s') \<Longrightarrow>
     heap s' = heap s
     \<and> trace s' = trace s @ [if force then EnforceConditions a else CheckConditions a]"
  by (auto simp: gate_def state_simps split: if_splits prod.splits option.splits sum.splits)

lemma allocate_state:
  "allocate a s = (r, s') \<Longrightarrow>
     heap s' = heap s
     \<and> (trace s' = trace s \<or> (\<exists>k m b. trace s' = trace s @ [Allocate k m b]))"
  by (auto simp: allocate_def state_simps split: option.splits)

lemma do_operate_state:
  "do_operate K a v s = (r, s') \<Longrightarrow> heap s' = heap s \<and> trace s' = trace s @ [Operate a v]"
  by (auto simp: do_operate_def state_simps split: prod.splits)

subsection \<open>What every call leaves alone\<close>

lemma same_static_refl: "same_static x x"
  by (simp add: same_static_def)

lemma same_static_trans: "same_static x y \<Longrightarrow> same_static y z \<Longrightarrow> same_static x z"
  by (simp add: same_static_def)

lemma same_static_updates:
  "same_static x (y\<lparr>args := xs\<rparr>) = same_static x y"
  "same_static x (y\<lparr>last_id := i\<rparr>) = same_static x y"
  "same_static x (y\<lparr>last_out := v\<rparr>) = same_static x y"
  by (simp_all add: same_static_def)

lemma ext_refl: "ext s s"
  by (simp add: ext_def same_static_refl)

lemma ext_trans: "ext s s1 \<Longrightarrow> ext s1 s2 \<Longrightarrow> ext s s2"
  unfolding ext_def using same_static_trans by (metis append.assoc)

lemma ext_steps:
  "ext s (log e s)" "ext s (set_arg a j v s)" "ext s (reset a s)" "ext s (clear_cache a s)"
  "ext s (store_cache a i v s)" "ext s (do_require_scales K v d s)" "ext s (do_set_scales K v d s)"
  by (simp_all add: ext_def state_simps same_static_refl same_static_updates)

lemma ext_gate: "gate K a force s = (r, s') \<Longrightarrow> ext s s'"
  by (auto simp: ext_def same_static_refl dest: gate_state)

lemma ext_allocate: "allocate a s = (r, s') \<Longrightarrow> ext s s'"
  using allocate_state [of a s r s'] by (auto simp: ext_def same_static_refl)

lemma ext_do_operate: "do_operate K a v s = (r, s') \<Longrightarrow> ext s s'"
  by (auto simp: ext_def same_static_refl dest: do_operate_state)

text \<open>The branches of \<open>finish\<close>, one fact for each way out.\<close>

lemma finish_cases:
  assumes "finish K a i force fl s = (r, s')"
  shows
   "(\<not> fl \<and> r = Inr None \<and> s' = s)
    \<or> (fl \<and> (\<exists>e. gate K a force s = (Inl e, s') \<and> r = Inl e))
    \<or> (fl \<and> gate K a force s = (Inr False, s') \<and> r = Inr None)
    \<or> (fl \<and> (\<exists>s1 e. gate K a force s = (Inr True, s1) \<and> allocate a s1 = (Inl e, s') \<and> r = Inl e))
    \<or> (fl \<and> (\<exists>s1 s2 v e. gate K a force s = (Inr True, s1) \<and> allocate a s1 = (Inr v, s2)
          \<and> do_operate K a v (do_set_scales K v (dealias (heap s2 a)) s2) = (Some e, s')
          \<and> r = Inl e))
    \<or> (fl \<and> (\<exists>s1 s2 s3 v. gate K a force s = (Inr True, s1) \<and> allocate a s1 = (Inr v, s2)
          \<and> do_operate K a v (do_set_scales K v (dealias (heap s2 a)) s2) = (None, s3)
          \<and> r = Inr (Some v)
          \<and> s' = (if store_last (heap s3 a) \<and> i \<noteq> None
                   then store_cache a i v (reset a s3) else reset a s3)))"
proof (cases fl)
  case False
  then show ?thesis using assms by (simp add: finish_def)
next
  case True
  obtain g s1 where g: "gate K a force s = (g, s1)" by (cases "gate K a force s")
  show ?thesis
  proof (cases g)
    case (Inl e)
    then show ?thesis using assms True g by (simp add: finish_def)
  next
    case (Inr b)
    show ?thesis
    proof (cases b)
      case False
      then show ?thesis using assms True g Inr by (simp add: finish_def)
    next
      case b: True
      obtain al s2 where al: "allocate a s1 = (al, s2)" by (cases "allocate a s1")
      show ?thesis
      proof (cases al)
        case (Inl e)
        then show ?thesis using assms True g Inr b al by (simp add: finish_def)
      next
        case v: (Inr v)
        obtain ro s3
          where ro: "do_operate K a v (do_set_scales K v (dealias (heap s2 a)) s2) = (ro, s3)"
          by (cases "do_operate K a v (do_set_scales K v (dealias (heap s2 a)) s2)")
        show ?thesis
        proof (cases ro)
          case (Some e)
          then show ?thesis using assms True g Inr b al v ro by (simp add: finish_def)
        next
          case None
          then show ?thesis using assms True g Inr b al v ro by (simp add: finish_def)
        qed
      qed
    qed
  qed
qed

lemma ext_finish:
  assumes "finish K a i force fl s = (r, s')"
  shows "ext s s'"
  using finish_cases [OF assms]
proof (elim disjE conjE exE)
  assume "s' = s"
  then show ?thesis by (simp add: ext_refl)
next
  fix e assume "gate K a force s = (Inl e, s')"
  then show ?thesis by (rule ext_gate)
next
  assume "gate K a force s = (Inr False, s')"
  then show ?thesis by (rule ext_gate)
next
  fix s1 e assume "gate K a force s = (Inr True, s1)" "allocate a s1 = (Inl e, s')"
  then show ?thesis using ext_trans [OF ext_gate ext_allocate] by blast
next
  fix s1 s2 v e
  assume g: "gate K a force s = (Inr True, s1)" and al: "allocate a s1 = (Inr v, s2)"
    and op: "do_operate K a v (do_set_scales K v (dealias (heap s2 a)) s2) = (Some e, s')"
  show ?thesis
    using ext_trans [OF ext_trans [OF ext_gate [OF g] ext_allocate [OF al]]
                        ext_trans [OF ext_steps(7) ext_do_operate [OF op]]] .
next
  fix s1 s2 s3 v
  assume g: "gate K a force s = (Inr True, s1)" and al: "allocate a s1 = (Inr v, s2)"
    and op: "do_operate K a v (do_set_scales K v (dealias (heap s2 a)) s2) = (None, s3)"
    and s': "s' = (if store_last (heap s3 a) \<and> i \<noteq> None
                   then store_cache a i v (reset a s3) else reset a s3)"
  have e3: "ext s s3"
    using ext_trans [OF ext_trans [OF ext_gate [OF g] ext_allocate [OF al]]
                        ext_trans [OF ext_steps(7) ext_do_operate [OF op]]] .
  show ?thesis
  proof (cases "store_last (heap s3 a) \<and> i \<noteq> None")
    case True
    have "s' = store_cache a i v (reset a s3)" using s' by (simp only: if_P [OF True])
    then show ?thesis
      using ext_trans [OF e3 ext_trans [OF ext_steps(3) ext_steps(5)]] by simp
  next
    case False
    have "s' = reset a s3" using s' by (simp only: if_not_P [OF False])
    then show ?thesis using ext_trans [OF e3 ext_steps(3)] by simp
  qed
qed

text \<open>The branches of the three functions of the recursion.\<close>

lemma resolve_args_Ref:
  "resolve_args n K a i force ((j, Ref c) # rest) fl s = Some (r2, s') \<Longrightarrow>
     (\<exists>e. evaluate n K c i force s = Some (Inl e, s') \<and> r2 = Inl e)
   \<or> (\<exists>v s1. evaluate n K c i force s = Some (Inr (Some v), s1)
        \<and> resolve_args n K a i force rest fl (set_arg a j v s1) = Some (r2, s'))
   \<or> (\<exists>s1. evaluate n K c i force s = Some (Inr None, s1)
        \<and> resolve_args n K a i force rest False s1 = Some (r2, s'))"
  by (simp split: option.splits sum.splits prod.splits)

lemma pipeline_cases:
  "pipeline n K a i force s = Some (r, s') \<Longrightarrow>
     (\<exists>e. resolve_args n K a i force (enumerate 0 (args (heap s a))) True s = Some (Inl e, s')
          \<and> r = Inl e)
   \<or> (\<exists>fl s1. resolve_args n K a i force (enumerate 0 (args (heap s a))) True s = Some (Inr fl, s1)
          \<and> finish K a i force fl s1 = (r, s'))"
  by (simp split: option.splits sum.splits prod.splits)

lemma evaluate_Suc_cases:
  "evaluate (Suc n) K a i force s = Some (r, s') \<Longrightarrow>
     (cache_hit a i s \<and> r = Inr (last_out (heap s a)) \<and> s' = log (Enter a i force) s)
   \<or> (\<not> cache_hit a i s \<and> store_last (heap s a) \<and> i \<noteq> None
        \<and> pipeline n K a i force (clear_cache a (log (Enter a i force) s)) = Some (r, s'))
   \<or> (\<not> cache_hit a i s \<and> \<not> (store_last (heap s a) \<and> i \<noteq> None)
        \<and> pipeline n K a i force (log (Enter a i force) s) = Some (r, s'))"
  by (auto simp del: pipeline.simps split: if_splits)

lemma ext_resolve_step:
  assumes ev: "\<And>c s r s'. evaluate n K c i force s = Some (r, s') \<Longrightarrow> ext s s'"
    and rs: "resolve_args n K a i force ps fl s = Some (r2, s')"
  shows "ext s s'"
  using rs
proof (induction ps arbitrary: fl s)
  case Nil
  then show ?case by (simp add: ext_refl)
next
  case (Cons p ps)
  obtain j x where p: "p = (j, x)" by (cases p)
  show ?case
  proof (cases x)
    case (Data k d)
    let ?s1 = "if is_Field (Data k d) then do_require_scales K (Data k d) (dealias (heap s a)) s else s"
    have "resolve_args n K a i force ps fl ?s1 = Some (r2, s')"
      using Cons.prems p Data by simp
    then have "ext ?s1 s'" by (rule Cons.IH)
    moreover have "ext s ?s1" by (simp add: ext_refl ext_steps)
    ultimately show ?thesis using ext_trans by blast
  next
    case (Num m)
    then show ?thesis using Cons p by simp
  next
    case (Ref c)
    from resolve_args_Ref [OF Cons.prems [unfolded p Ref]]
    show ?thesis
    proof (elim disjE exE conjE)
      fix e assume "evaluate n K c i force s = Some (Inl e, s')"
      then show ?thesis by (rule ev)
    next
      fix v s1
      assume a1: "evaluate n K c i force s = Some (Inr (Some v), s1)"
        and a2: "resolve_args n K a i force ps fl (set_arg a j v s1) = Some (r2, s')"
      show ?thesis
        using ext_trans [OF ev [OF a1] ext_trans [OF ext_steps(2) Cons.IH [OF a2]]] .
    next
      fix s1
      assume a1: "evaluate n K c i force s = Some (Inr None, s1)"
        and a2: "resolve_args n K a i force ps False s1 = Some (r2, s')"
      show ?thesis
        using ext_trans [OF ev [OF a1] Cons.IH [OF a2]] .
    qed
  qed
qed

lemma ext_pipeline_step:
  assumes ev: "\<And>c s r s'. evaluate n K c i force s = Some (r, s') \<Longrightarrow> ext s s'"
    and p: "pipeline n K a i force s = Some (r, s')"
  shows "ext s s'"
  using pipeline_cases [OF p]
proof (elim disjE exE conjE)
  fix e
  assume a0: "resolve_args n K a i force (enumerate 0 (args (heap s a))) True s = Some (Inl e, s')"
  show ?thesis using ext_resolve_step [OF ev a0] .
next
  fix fl s1
  assume a1: "resolve_args n K a i force (enumerate 0 (args (heap s a))) True s = Some (Inr fl, s1)"
    and a2: "finish K a i force fl s1 = (r, s')"
  show ?thesis using ext_trans [OF ext_resolve_step [OF ev a1] ext_finish [OF a2]] .
qed

lemma ext_evaluate: "evaluate n K a i force s = Some (r, s') \<Longrightarrow> ext s s'"
proof (induction n arbitrary: a s r s')
  case 0
  then show ?case by simp
next
  case (Suc n)
  from evaluate_Suc_cases [OF Suc.prems] show ?case
  proof (elim disjE conjE)
    assume "s' = log (Enter a i force) s"
    then show ?thesis by (simp add: ext_steps)
  next
    assume p: "pipeline n K a i force (clear_cache a (log (Enter a i force) s)) = Some (r, s')"
    show ?thesis
      using ext_trans [OF ext_trans [OF ext_steps(1) ext_steps(4)] ext_pipeline_step [OF Suc.IH p]] .
  next
    assume p: "pipeline n K a i force (log (Enter a i force) s) = Some (r, s')"
    show ?thesis
      using ext_trans [OF ext_steps(1) ext_pipeline_step [OF Suc.IH p]] .
  qed
qed

lemma ext_pipeline:
  assumes p: "pipeline n K a i force s = Some (r, s')"
  shows "ext s s'"
proof -
  have ev: "\<And>c s r s'. evaluate n K c i force s = Some (r, s') \<Longrightarrow> ext s s'"
    by (rule ext_evaluate)
  show ?thesis using ext_pipeline_step [OF ev p] .
qed

lemma ext_resolve_args:
  assumes rs: "resolve_args n K a i force ps fl s = Some (r2, s')"
  shows "ext s s'"
proof -
  have ev: "\<And>c s r s'. evaluate n K c i force s = Some (r, s') \<Longrightarrow> ext s s'"
    by (rule ext_evaluate)
  show ?thesis using ext_resolve_step [OF ev rs] .
qed

subsection \<open>Past the memo check\<close>

lemma evaluate_miss:
  "\<not> cache_hit a i s \<Longrightarrow>
     evaluate (Suc n) K a i force s = pipeline n K a i force (entered a i force s)"
  by (auto simp: entered_def simp del: pipeline.simps)

lemma evaluate_hit:
  "cache_hit a i s \<Longrightarrow>
     evaluate (Suc n) K a i force s = Some (Inr (last_out (heap s a)), log (Enter a i force) s)"
  by simp

lemma entered_simps:
  "trace (entered a i force s) = trace s @ [Enter a i force]"
  "args (heap (entered a i force s) b) = args (heap s b)"
  "original_args (heap (entered a i force s) b) = original_args (heap s b)"
  "store_last (heap (entered a i force s) b) = store_last (heap s b)"
  "dealias (heap (entered a i force s) b) = dealias (heap s b)"
  "world (entered a i force s) = world s"
  by (simp_all add: entered_def state_simps)

lemma ext_entered: "ext s (entered a i force s)"
  unfolding entered_def using ext_trans [OF ext_steps(1) ext_steps(4)] ext_steps(1) by auto

lemma ext_static:
  "ext s s' \<Longrightarrow> store_last (heap s' b) = store_last (heap s b)"
  "ext s s' \<Longrightarrow> dealias (heap s' b) = dealias (heap s b)"
  "ext s s' \<Longrightarrow> original_args (heap s' b) = original_args (heap s b)"
  by (simp_all add: ext_def same_static_def)

text \<open>
  A call that returns an output without the memo went through the whole of \<open>finish\<close>.
\<close>

lemma finish_output:
  assumes "finish K a i force fl s1 = (Inr (Some v), s')"
  shows "\<exists>s2 s3 s4. fl \<and> gate K a force s1 = (Inr True, s2) \<and> allocate a s2 = (Inr v, s3)
           \<and> do_operate K a v (do_set_scales K v (dealias (heap s3 a)) s3) = (None, s4)
           \<and> s' = (if store_last (heap s4 a) \<and> i \<noteq> None
                    then store_cache a i v (reset a s4) else reset a s4)"
  using finish_cases [OF assms] by auto

lemma pipeline_output:
  assumes "pipeline n K a i force s = Some (Inr (Some v), s')"
  shows "\<exists>s1. resolve_args n K a i force (enumerate 0 (args (heap s a))) True s = Some (Inr True, s1)
           \<and> finish K a i force True s1 = (Inr (Some v), s')"
proof -
  from pipeline_cases [OF assms] obtain fl s1
    where rs: "resolve_args n K a i force (enumerate 0 (args (heap s a))) True s = Some (Inr fl, s1)"
      and fin: "finish K a i force fl s1 = (Inr (Some v), s')"
    by auto
  have "fl" using finish_output [OF fin] by auto
  then show ?thesis using rs fin by auto
qed

section \<open>Properties of \<open>replace\<close>\<close>










end
